theory Spec2Isabelle
  imports Main "HOL-Library.Word"
begin

section \<open>The G-code command queue of Marlin (src/gcode/queue.h)\<close>

text \<open>
  A shallow embedding of the declarations of \<^verbatim>\<open>class GCodeQueue\<close>. Every inline
  member function of the header is a HOL function over explicit state; a member
  function that assigns to the object returns the new state. An array access of
  the header at a stored index that lies outside the array is undefined behaviour
  in C++ and is the value \<open>None\<close> here.
\<close>

subsection \<open>Configuration constants\<close>

text \<open>
  \<^verbatim>\<open>MAX_CMD_SIZE\<close>, \<^verbatim>\<open>BUFSIZE\<close>, \<^verbatim>\<open>NUM_SERIAL\<close> and the feature flag
  \<^verbatim>\<open>HAS_MULTI_SERIAL\<close> come from \<^verbatim>\<open>MarlinConfig.h\<close>; they are parameters of the
  model.
\<close>

record config =
  MAX_CMD_SIZE :: nat
  BUFSIZE :: nat
  NUM_SERIAL :: nat
  HAS_MULTI_SERIAL :: bool

subsection \<open>Data\<close>

type_synonym uint8_t = "8 word"

text \<open>\<^verbatim>\<open>serial_index_t\<close> is a signed port index; \<open>-1\<close> is the default argument
  of \<^verbatim>\<open>enqueue\<close> and \<^verbatim>\<open>commit_command\<close>.\<close>

type_synonym serial_index_t = int

abbreviation NUL :: char where
  "NUL \<equiv> CHR 0x00"

text \<open>\<^verbatim>\<open>struct SerialState\<close>; \<^verbatim>\<open>long\<close> and \<^verbatim>\<open>int\<close> are only stored here,
  never computed with, so they are unbounded integers.\<close>

record SerialState =
  last_N :: int
  count :: int
  line_buffer :: "char list"
  input_state :: uint8_t

text \<open>\<^verbatim>\<open>struct CommandLine\<close>; the field \<open>port\<close> exists in the source only under
  \<^verbatim>\<open>HAS_MULTI_SERIAL\<close>, and is read only under that flag.\<close>

record CommandLine =
  buffer :: "char list"
  skip_ok :: bool
  port :: serial_index_t

text \<open>\<^verbatim>\<open>struct RingBuffer\<close>; the field \<^verbatim>\<open>length\<close> is \<open>length_rb\<close> here.\<close>

record RingBuffer =
  length_rb :: uint8_t
  index_r :: uint8_t
  index_w :: uint8_t
  commands :: "CommandLine list"

text \<open>The static members of \<^verbatim>\<open>GCodeQueue\<close>. A \<^verbatim>\<open>PGM_P\<close> is a pointer to a
  string in program memory: \<open>None\<close> is \<^verbatim>\<open>nullptr\<close>, \<open>Some s\<close> points at \<open>s\<close>.\<close>

type_synonym PGM_P = "string option"

record GCodeQueue =
  serial_state :: "SerialState list"
  ring_buffer :: RingBuffer
  injected_commands_P :: PGM_P
  injected_commands :: "char list"

text \<open>\<^verbatim>\<open>sizeof(injected_commands)\<close> for \<^verbatim>\<open>char injected_commands[64]\<close>.\<close>

definition sizeof_injected_commands :: nat where
  "sizeof_injected_commands = 64"

text \<open>\<^verbatim>\<open>CommandLine commands[BUFSIZE]\<close>: the ring has \<open>BUFSIZE\<close> slots.\<close>

definition ring_sized :: "config \<Rightarrow> RingBuffer \<Rightarrow> bool" where
  "ring_sized cfg r \<longleftrightarrow> length (commands r) = BUFSIZE cfg"

subsection \<open>C strings\<close>

text \<open>The string held by a character array: the bytes before the first NUL. A
  \<^verbatim>\<open>const char*\<close> argument is the list of bytes it points at, read up to the first
  NUL or, when the list has none, up to its end.\<close>

definition c_str :: "char list \<Rightarrow> char list" where
  "c_str bs = takeWhile (\<lambda>c. c \<noteq> NUL) bs"

definition strlen :: "char list \<Rightarrow> nat" where
  "strlen bs = length (c_str bs)"

text \<open>The \<open>n\<close> bytes that \<^verbatim>\<open>strncpy(dst, src, n)\<close> stores: the bytes of \<open>src\<close> up
  to its terminator, then NULs up to \<open>n\<close> bytes in all; no NUL when \<open>src\<close> has \<open>n\<close>
  or more bytes.\<close>

fun strncpy_bytes :: "char list \<Rightarrow> nat \<Rightarrow> char list" where
  "strncpy_bytes src 0 = []"
| "strncpy_bytes [] (Suc n) = replicate (Suc n) NUL"
| "strncpy_bytes (c # cs) (Suc n) =
     (if c = NUL then replicate (Suc n) NUL else c # strncpy_bytes cs n)"

text \<open>\<^verbatim>\<open>strncpy(dst, src, n)\<close> of the C library, for \<open>n\<close> within \<open>dst\<close>: the bytes
  of \<open>dst\<close> from \<open>n\<close> on are not written.\<close>

definition strncpy :: "char list \<Rightarrow> char list \<Rightarrow> nat \<Rightarrow> char list" where
  "strncpy dst src n = strncpy_bytes src n @ drop n dst"

subsection \<open>RingBuffer\<close>

text \<open>The element of \<^verbatim>\<open>commands[i]\<close>.\<close>

definition commands_at :: "RingBuffer \<Rightarrow> uint8_t \<Rightarrow> CommandLine option" where
  "commands_at r i =
     (if unat i < length (commands r) then Some (commands r ! unat i) else None)"

text \<open>\<^verbatim>\<open>serial_index_t command_port() const
  { return TERN0(HAS_MULTI_SERIAL, commands[index_r].port); }\<close>\<close>

definition command_port :: "config \<Rightarrow> RingBuffer \<Rightarrow> serial_index_t option" where
  "command_port cfg r =
     (if HAS_MULTI_SERIAL cfg then map_option port (commands_at r (index_r r))
      else Some 0)"

text \<open>\<^verbatim>\<open>void clear() { length = index_r = index_w = 0; }\<close>\<close>

definition RingBuffer_clear :: "RingBuffer \<Rightarrow> RingBuffer" where
  "RingBuffer_clear r = r\<lparr>index_w := 0, index_r := 0, length_rb := 0\<rparr>"

text \<open>The argument \<^verbatim>\<open>uint8_t &p\<close> of \<^verbatim>\<open>advance_pos\<close> refers to one of the two
  positions of the ring.\<close>

datatype pos_ref = Index_r | Index_w

fun get_pos :: "pos_ref \<Rightarrow> RingBuffer \<Rightarrow> uint8_t" where
  "get_pos Index_r r = index_r r"
| "get_pos Index_w r = index_w r"

fun set_pos :: "pos_ref \<Rightarrow> uint8_t \<Rightarrow> RingBuffer \<Rightarrow> RingBuffer" where
  "set_pos Index_r v r = r\<lparr>index_r := v\<rparr>"
| "set_pos Index_w v r = r\<lparr>index_w := v\<rparr>"

text \<open>\<^verbatim>\<open>void advance_pos(uint8_t &p, const int inc)
  { if (++p >= BUFSIZE) p = 0; length += inc; }\<close>

  \<^verbatim>\<open>++p\<close> wraps at 256; the comparison is on \<^verbatim>\<open>int\<close>; \<^verbatim>\<open>length += inc\<close> adds
  on \<^verbatim>\<open>int\<close> and converts the sum back to \<^verbatim>\<open>uint8_t\<close>.\<close>

definition advance_pos :: "config \<Rightarrow> pos_ref \<Rightarrow> int \<Rightarrow> RingBuffer \<Rightarrow> RingBuffer" where
  "advance_pos cfg p inc r =
     (let p1 = get_pos p r + 1;
          p2 = (if int (BUFSIZE cfg) \<le> uint p1 then 0 else p1);
          r1 = set_pos p p2 r
      in r1\<lparr>length_rb := word_of_int (uint (length_rb r1) + inc)\<rparr>)"

text \<open>\<^verbatim>\<open>bool full(uint8_t cmdCount=1) const { return length > (BUFSIZE - cmdCount); }\<close>
  Both sides are promoted to \<^verbatim>\<open>int\<close>, so the difference can be negative.\<close>

definition full :: "config \<Rightarrow> RingBuffer \<Rightarrow> uint8_t \<Rightarrow> bool" where
  "full cfg r cmdCount \<longleftrightarrow> uint (length_rb r) > int (BUFSIZE cfg) - uint cmdCount"

text \<open>\<^verbatim>\<open>bool occupied() const { return length != 0; }\<close>\<close>

definition occupied :: "RingBuffer \<Rightarrow> bool" where
  "occupied r \<longleftrightarrow> length_rb r \<noteq> 0"

text \<open>\<^verbatim>\<open>bool empty() const { return !occupied(); }\<close>\<close>

definition empty_rb :: "RingBuffer \<Rightarrow> bool" where
  "empty_rb r \<longleftrightarrow> \<not> occupied r"

text \<open>\<^verbatim>\<open>CommandLine& peek_next_command() { return commands[index_r]; }\<close>
  The member function is not \<^verbatim>\<open>const\<close>: it returns the element and the ring as
  it leaves it.\<close>

definition peek_next_command :: "RingBuffer \<Rightarrow> CommandLine option \<times> RingBuffer" where
  "peek_next_command r = (commands_at r (index_r r), r)"

text \<open>\<^verbatim>\<open>char* peek_next_command_string() { return peek_next_command().buffer; }\<close>\<close>

definition peek_next_command_string :: "RingBuffer \<Rightarrow> char list option \<times> RingBuffer" where
  "peek_next_command_string r =
     (case peek_next_command r of (c, r') \<Rightarrow> (map_option buffer c, r'))"

subsection \<open>GCodeQueue\<close>

text \<open>\<^verbatim>\<open>static void clear() { ring_buffer.clear(); }\<close>\<close>

definition GCodeQueue_clear :: "GCodeQueue \<Rightarrow> GCodeQueue" where
  "GCodeQueue_clear q = q\<lparr>ring_buffer := RingBuffer_clear (ring_buffer q)\<rparr>"

text \<open>\<^verbatim>\<open>static inline void inject_P(PGM_P const pgcode) { injected_commands_P = pgcode; }\<close>\<close>

definition inject_P :: "PGM_P \<Rightarrow> GCodeQueue \<Rightarrow> GCodeQueue" where
  "inject_P pgcode q = q\<lparr>injected_commands_P := pgcode\<rparr>"

text \<open>\<^verbatim>\<open>static inline void inject(char * const gcode) {
    strncpy(injected_commands, gcode, sizeof(injected_commands) - 1); }\<close>\<close>

definition inject :: "char list \<Rightarrow> GCodeQueue \<Rightarrow> GCodeQueue" where
  "inject gcode q =
     q\<lparr>injected_commands :=
         strncpy (injected_commands q) gcode (sizeof_injected_commands - 1)\<rparr>"

text \<open>\<^verbatim>\<open>static bool has_commands_queued()
  { return ring_buffer.length || injected_commands_P || injected_commands[0]; }\<close>\<close>

definition has_commands_queued :: "GCodeQueue \<Rightarrow> bool" where
  "has_commands_queued q \<longleftrightarrow>
     length_rb (ring_buffer q) \<noteq> 0 \<or> injected_commands_P q \<noteq> None \<or>
     injected_commands q ! 0 \<noteq> NUL"

text \<open>\<^verbatim>\<open>static inline void set_current_line_number(long n)
  { serial_state[ring_buffer.command_port()].last_N = n; }\<close>\<close>

definition set_current_line_number :: "config \<Rightarrow> int \<Rightarrow> GCodeQueue \<Rightarrow> GCodeQueue option" where
  "set_current_line_number cfg n q =
     (case command_port cfg (ring_buffer q) of
        None \<Rightarrow> None
      | Some p \<Rightarrow>
          if 0 \<le> p \<and> nat p < length (serial_state q)
          then Some (q\<lparr>serial_state :=
                        (serial_state q)[nat p := (serial_state q ! nat p)\<lparr>last_N := n\<rparr>]\<rparr>)
          else None)"

subsection \<open>The ring invariant and the moves of the two positions\<close>

text \<open>Ring integrity: \<open>(index_r + length) mod BUFSIZE = index_w\<close> and
  \<open>0 \<le> length \<le> BUFSIZE\<close>; the fields are unsigned, so \<open>0 \<le> length\<close> holds by type.\<close>

definition ring_inv :: "config \<Rightarrow> RingBuffer \<Rightarrow> bool" where
  "ring_inv cfg r \<longleftrightarrow>
     (unat (index_r r) + unat (length_rb r)) mod BUFSIZE cfg = unat (index_w r) \<and>
     unat (length_rb r) \<le> BUFSIZE cfg"

text \<open>The two calls of \<open>advance_pos\<close>: an enqueue is \<^verbatim>\<open>advance_pos(index_w, 1)\<close>, made
  when \<open>length < BUFSIZE\<close>; a pop is \<^verbatim>\<open>advance_pos(index_r, -1)\<close>, made when
  \<open>length > 0\<close>. A call whose precondition fails is not made. The contents of the
  slots play no part in the invariant and are left as they are.\<close>

datatype ring_op = Enqueue | Pop

fun ring_op_step :: "config \<Rightarrow> RingBuffer \<Rightarrow> ring_op \<Rightarrow> RingBuffer" where
  "ring_op_step cfg r Enqueue =
     (if unat (length_rb r) < BUFSIZE cfg then advance_pos cfg Index_w 1 r else r)"
| "ring_op_step cfg r Pop =
     (if 0 < unat (length_rb r) then advance_pos cfg Index_r (- 1) r else r)"

definition ring_ops :: "config \<Rightarrow> ring_op list \<Rightarrow> RingBuffer \<Rightarrow> RingBuffer" where
  "ring_ops cfg ops r = foldl (ring_op_step cfg) r ops"

subsection \<open>The queued commands\<close>

text \<open>The entries of the ring at \<open>index_r\<close>, \<open>index_r + 1\<close>, \<open>\<dots>\<close>, \<open>index_r + length - 1\<close>,
  taken modulo \<open>BUFSIZE\<close>: the commands that are queued, the oldest first.\<close>

definition queued :: "config \<Rightarrow> RingBuffer \<Rightarrow> CommandLine list" where
  "queued cfg r =
     map (\<lambda>k. commands r ! ((unat (index_r r) + k) mod BUFSIZE cfg)) [0..<unat (length_rb r)]"

subsection \<open>enqueue and commit_command\<close>

text \<open>Modelled from the spec: the bodies of \<^verbatim>\<open>RingBuffer::commit_command\<close> and
  \<^verbatim>\<open>RingBuffer::enqueue\<close> are in \<^verbatim>\<open>queue.cpp\<close>, which is not among the sources;
  the header has their declarations only. Section 4.1 of the spec: if
  \<open>length = BUFSIZE\<close> return false; else copy \<open>cmd\<close>, truncated to
  \<open>MAX_CMD_SIZE - 1\<close> bytes and NUL-terminated, into slot \<open>write_index\<close>, record the
  tag fields, advance \<open>write_index\<close> modulo \<open>BUFSIZE\<close>, increment \<open>length\<close>, return
  true. The bytes of the slot after the terminator are left as they were.\<close>

definition copy_command :: "nat \<Rightarrow> char list \<Rightarrow> char list \<Rightarrow> char list" where
  "copy_command sz dst cmd =
     (let s = take (sz - 1) (c_str cmd) in s @ NUL # drop (length s + 1) dst)"

text \<open>Modelled from the spec: \<^verbatim>\<open>commit_command(skip_ok, serial_ind)\<close>, the second half
  of the sentence above: record the tag fields, advance \<open>write_index\<close> modulo
  \<open>BUFSIZE\<close>, increment \<open>length\<close>.\<close>

definition commit_command :: "config \<Rightarrow> bool \<Rightarrow> serial_index_t \<Rightarrow> RingBuffer \<Rightarrow> RingBuffer" where
  "commit_command cfg ok serial_ind r =
     (let i = unat (index_w r)
      in r\<lparr>commands := (commands r)[i := (commands r ! i)\<lparr>skip_ok := ok, port := serial_ind\<rparr>],
           index_w := of_nat ((unat (index_w r) + 1) mod BUFSIZE cfg),
           length_rb := length_rb r + 1\<rparr>)"

text \<open>Modelled from the spec: \<^verbatim>\<open>enqueue(cmd, skip_ok, serial_ind)\<close>; the result is the
  returned \<^verbatim>\<open>bool\<close> and the ring.\<close>

definition enqueue ::
    "config \<Rightarrow> char list \<Rightarrow> bool \<Rightarrow> serial_index_t \<Rightarrow> RingBuffer \<Rightarrow> bool \<times> RingBuffer" where
  "enqueue cfg cmd ok serial_ind r =
     (if unat (length_rb r) = BUFSIZE cfg then (False, r)
      else
        let i = unat (index_w r);
            c = commands r ! i;
            r1 = r\<lparr>commands :=
                    (commands r)[i := c\<lparr>buffer := copy_command (MAX_CMD_SIZE cfg) (buffer c) cmd\<rparr>]\<rparr>
        in (True, commit_command cfg ok serial_ind r1))"

subsection \<open>A concrete configuration and state\<close>

text \<open>A ring of four slots of eight bytes and two serial ports, used to run the
  functions on concrete inputs.\<close>

definition cfg_example :: config where
  "cfg_example = \<lparr>MAX_CMD_SIZE = 8, BUFSIZE = 4, NUM_SERIAL = 2, HAS_MULTI_SERIAL = True\<rparr>"

definition slot_example :: "char list \<Rightarrow> bool \<Rightarrow> serial_index_t \<Rightarrow> CommandLine" where
  "slot_example s ok p = \<lparr>buffer = s @ replicate (8 - length s) NUL, skip_ok = ok, port = p\<rparr>"

definition ring_example :: RingBuffer where
  "ring_example = \<lparr>length_rb = 2, index_r = 3, index_w = 1,
     commands = [slot_example ''M84'' True (- 1), slot_example ''G1 X1'' False 0,
                 slot_example ''G0'' False 0, slot_example ''G28'' False 1]\<rparr>"

definition queue_example :: GCodeQueue where
  "queue_example = \<lparr>serial_state =
       [\<lparr>last_N = 7, count = 0, line_buffer = replicate 8 NUL, input_state = 0\<rparr>,
        \<lparr>last_N = - 1, count = 2, line_buffer = ''G1'' @ replicate 6 NUL, input_state = 1\<rparr>],
     ring_buffer = ring_example,
     injected_commands_P = Some ''G28'',
     injected_commands = ''M117 hi'' @ replicate 57 NUL\<rparr>"

text \<open>The ring after \<^verbatim>\<open>clear()\<close> and one \<^verbatim>\<open>enqueue("M110 N5")\<close> with the default
  arguments \<^verbatim>\<open>skip_ok = true\<close> and \<^verbatim>\<open>serial_ind = -1\<close> of the header: the command at
  the read position came from no serial port.\<close>

definition ring_injected :: RingBuffer where
  "ring_injected = \<lparr>length_rb = 1, index_r = 0, index_w = 1,
     commands = [slot_example ''M110 N5'' True (- 1), slot_example ''G1 X1'' False 0,
                 slot_example ''G0'' False 0, slot_example ''G28'' False 1]\<rparr>"

definition queue_injected :: GCodeQueue where
  "queue_injected = queue_example\<lparr>ring_buffer := ring_injected\<rparr>"

text \<open>A ring whose read position lies outside the four slots.\<close>

definition ring_bad :: RingBuffer where
  "ring_bad = \<lparr>length_rb = 1, index_r = 6, index_w = 3, commands = commands ring_example\<rparr>"

text \<open>A string of 70 bytes, longer than the scratch buffer.\<close>

definition gcode_long :: "char list" where
  "gcode_long = replicate 70 (CHR ''x'')"

section \<open>Properties\<close>

subsection \<open>Arithmetic of the 8-bit fields\<close>

lemma unat_length_inc:
  "unat (w :: uint8_t) < 255 \<Longrightarrow> unat (word_of_int (uint w + 1) :: uint8_t) = unat w + 1"
  by (simp add: unat_word_ariths)

lemma unat_length_dec:
  "0 < unat (w :: uint8_t) \<Longrightarrow> unat (word_of_int (uint w + (- 1)) :: uint8_t) = unat w - 1"
  by (simp add: unat_minus_one unat_gt_0)

text \<open>\<^verbatim>\<open>if (++p >= BUFSIZE) p = 0;\<close> on a position inside the array is the successor
  modulo \<open>BUFSIZE\<close>.\<close>

lemma unat_wrap_pos:
  assumes "B \<le> 255" and "unat (p :: uint8_t) < B"
  shows "unat (if int B \<le> uint (p + 1) then 0 else p + 1) = (unat p + 1) mod B"
proof -
  from assms have "unat p < 255" by simp
  then have s: "unat (p + 1) = unat p + 1" by (simp add: unat_word_ariths)
  have "uint (p + 1) = int (unat (p + 1))" by simp
  with s have u: "uint (p + 1) = int (unat p + 1)" by simp
  show ?thesis
  proof (cases "B \<le> unat p + 1")
    case True
    with assms have e: "unat p + 1 = B" by simp
    from True u have "int B \<le> uint (p + 1)" by (simp only: of_nat_le_iff)
    then have "(if int B \<le> uint (p + 1) then 0 else p + 1) = 0" by (simp only: if_True)
    with e show ?thesis by simp
  next
    case False
    with u have "\<not> int B \<le> uint (p + 1)" by (simp only: of_nat_le_iff not_False_eq_True)
    then have "(if int B \<le> uint (p + 1) then 0 else p + 1) = p + 1" by (simp only: if_False)
    with False s show ?thesis by simp
  qed
qed

lemma unat_of_nat_mod:
  assumes "0 < B" and "B \<le> 255"
  shows "unat (of_nat (k mod B) :: uint8_t) = k mod B"
proof -
  from assms(1) have "k mod B < B" by simp
  with assms(2) have "k mod B < 256" by simp
  then show ?thesis by (simp add: unat_of_nat)
qed

lemma advance_pos_w:
  "advance_pos cfg Index_w 1 r =
     r\<lparr>index_w := (if int (BUFSIZE cfg) \<le> uint (index_w r + 1) then 0 else index_w r + 1),
       length_rb := word_of_int (uint (length_rb r) + 1)\<rparr>"
  by (simp add: advance_pos_def Let_def)

lemma advance_pos_r:
  "advance_pos cfg Index_r (- 1) r =
     r\<lparr>index_r := (if int (BUFSIZE cfg) \<le> uint (index_r r + 1) then 0 else index_r r + 1),
       length_rb := word_of_int (uint (length_rb r) + (- 1))\<rparr>"
  by (simp add: advance_pos_def Let_def)

subsection \<open>Ring integrity\<close>

lemma ring_inv_index_w: "0 < BUFSIZE cfg \<Longrightarrow> ring_inv cfg r \<Longrightarrow> unat (index_w r) < BUFSIZE cfg"
  unfolding ring_inv_def by (metis mod_less_divisor)

lemma enqueue_step_inv:
  assumes B: "0 < BUFSIZE cfg" "BUFSIZE cfg \<le> 255"
    and inv: "ring_inv cfg r" and len: "unat (length_rb r) < BUFSIZE cfg"
  shows "ring_inv cfg (advance_pos cfg Index_w 1 r)"
proof -
  let ?B = "BUFSIZE cfg"
  have w: "unat (index_w r) < ?B" using B(1) inv by (rule ring_inv_index_w)
  have l: "unat (word_of_int (uint (length_rb r) + 1) :: uint8_t) = unat (length_rb r) + 1"
    using len B by (intro unat_length_inc) simp
  have p: "unat (if int ?B \<le> uint (index_w r + 1) then 0 else index_w r + 1)
             = (unat (index_w r) + 1) mod ?B"
    using B(2) w by (rule unat_wrap_pos)
  have "(unat (index_r r) + (unat (length_rb r) + 1)) mod ?B
          = ((unat (index_r r) + unat (length_rb r)) mod ?B + 1) mod ?B"
    by (simp add: mod_Suc_eq)
  also have "\<dots> = (unat (index_w r) + 1) mod ?B"
    using inv by (simp add: ring_inv_def)
  finally have "(unat (index_r r) + (unat (length_rb r) + 1)) mod ?B = (unat (index_w r) + 1) mod ?B" .
  with l p len show ?thesis
    by (simp add: ring_inv_def advance_pos_w del: One_nat_def)
qed

lemma pop_step_inv:
  assumes B: "0 < BUFSIZE cfg" "BUFSIZE cfg \<le> 255"
    and inv: "ring_inv cfg r" and r: "unat (index_r r) < BUFSIZE cfg"
    and len: "0 < unat (length_rb r)"
  shows "ring_inv cfg (advance_pos cfg Index_r (- 1) r)"
    and "unat (index_r (advance_pos cfg Index_r (- 1) r)) < BUFSIZE cfg"
proof -
  let ?B = "BUFSIZE cfg"
  have l: "unat (word_of_int (uint (length_rb r) + (- 1)) :: uint8_t) = unat (length_rb r) - 1"
    using len by (rule unat_length_dec)
  have p: "unat (if int ?B \<le> uint (index_r r + 1) then 0 else index_r r + 1)
             = (unat (index_r r) + 1) mod ?B"
    using B(2) r by (rule unat_wrap_pos)
  have "((unat (index_r r) + 1) mod ?B + (unat (length_rb r) - 1)) mod ?B
          = (unat (index_r r) + 1 + (unat (length_rb r) - 1)) mod ?B"
    by (rule mod_add_left_eq)
  also have "\<dots> = (unat (index_r r) + unat (length_rb r)) mod ?B"
    using len by simp
  also have "\<dots> = unat (index_w r)"
    using inv by (simp add: ring_inv_def)
  finally have e: "((unat (index_r r) + 1) mod ?B + (unat (length_rb r) - 1)) mod ?B = unat (index_w r)" .
  from inv have "unat (length_rb r) \<le> ?B" by (simp add: ring_inv_def)
  then have "unat (length_rb r) - 1 \<le> ?B" by arith
  with l p e show "ring_inv cfg (advance_pos cfg Index_r (- 1) r)"
    by (simp add: ring_inv_def advance_pos_r del: One_nat_def)
  from p B(1) show "unat (index_r (advance_pos cfg Index_r (- 1) r)) < ?B"
    by (simp add: advance_pos_r del: One_nat_def)
qed

lemma ring_op_step_inv:
  assumes B: "0 < BUFSIZE cfg" "BUFSIZE cfg \<le> 255"
    and inv: "ring_inv cfg r \<and> unat (index_r r) < BUFSIZE cfg"
  shows "ring_inv cfg (ring_op_step cfg r op) \<and> unat (index_r (ring_op_step cfg r op)) < BUFSIZE cfg"
proof (cases op)
  case Enqueue
  have "index_r (advance_pos cfg Index_w 1 r) = index_r r" by (simp add: advance_pos_w)
  with Enqueue inv enqueue_step_inv [OF B] show ?thesis by simp
next
  case Pop
  with inv pop_step_inv [OF B] show ?thesis by simp
qed

lemma ring_ops_inv:
  assumes B: "0 < BUFSIZE cfg" "BUFSIZE cfg \<le> 255"
  shows "ring_inv cfg r \<and> unat (index_r r) < BUFSIZE cfg \<Longrightarrow>
    ring_inv cfg (ring_ops cfg ops r) \<and> unat (index_r (ring_ops cfg ops r)) < BUFSIZE cfg"
  unfolding ring_ops_def
proof (induction ops arbitrary: r)
  case Nil
  then show ?case by simp
next
  case (Cons op ops)
  from ring_op_step_inv [OF B Cons.prems]
  have "ring_inv cfg (ring_op_step cfg r op) \<and> unat (index_r (ring_op_step cfg r op)) < BUFSIZE cfg" .
  then show ?case using Cons.IH by simp
qed

text \<open>
  C1. Let \<open>BUFSIZE\<close> be a value of the 8-bit \<open>length\<close> field, \<open>0 < BUFSIZE \<le> 255\<close>. Then
  \<open>clear()\<close> establishes the invariant \<open>(index_r + length) mod BUFSIZE = index_w\<close> and
  \<open>length \<le> BUFSIZE\<close>; \<open>advance_pos(index_w, +1)\<close> preserves it when
  \<open>length < BUFSIZE\<close>; \<open>advance_pos(index_r, -1)\<close> preserves it when \<open>length > 0\<close> and
  \<open>index_r\<close> is a position of the array; and after any sequence of enqueues and pops
  from the cleared ring the invariant holds and \<open>index_r\<close> is a position of the
  array, so that the next pop preserves it again.
\<close>

theorem ring_integrity:
  assumes B: "0 < BUFSIZE cfg" "BUFSIZE cfg \<le> 255"
  shows "ring_inv cfg (RingBuffer_clear r0) \<and>
         (ring_inv cfg r \<and> unat (length_rb r) < BUFSIZE cfg \<longrightarrow>
            ring_inv cfg (advance_pos cfg Index_w 1 r)) \<and>
         (ring_inv cfg r \<and> unat (index_r r) < BUFSIZE cfg \<and> 0 < unat (length_rb r) \<longrightarrow>
            ring_inv cfg (advance_pos cfg Index_r (- 1) r)) \<and>
         ring_inv cfg (ring_ops cfg ops (RingBuffer_clear r0)) \<and>
         unat (index_r (ring_ops cfg ops (RingBuffer_clear r0))) < BUFSIZE cfg"
proof -
  have c: "ring_inv cfg (RingBuffer_clear r0) \<and> unat (index_r (RingBuffer_clear r0)) < BUFSIZE cfg"
    using B(1) by (simp add: ring_inv_def RingBuffer_clear_def)
  note ring_ops_inv [OF B c, of ops]
  with c enqueue_step_inv [OF B, of r] pop_step_inv(1) [OF B, of r] show ?thesis
    by blast
qed

theorem ring_integrity_witness:
  "ring_inv cfg_example (RingBuffer_clear ring_example) \<and>
   ring_inv cfg_example (advance_pos cfg_example Index_w 1 ring_example) \<and>
   ring_inv cfg_example (advance_pos cfg_example Index_r (- 1) ring_example) \<and>
   ring_inv cfg_example
     (ring_ops cfg_example [Enqueue, Enqueue, Pop, Enqueue, Enqueue, Enqueue, Enqueue, Pop, Pop]
        (RingBuffer_clear ring_example))"
  using ring_integrity [of cfg_example ring_example ring_example
      "[Enqueue, Enqueue, Pop, Enqueue, Enqueue, Enqueue, Enqueue, Pop, Pop]"]
  by (simp add: cfg_example_def ring_example_def ring_inv_def)

text \<open>The bound on \<open>index_r\<close> is needed for the single call: with four slots,
  \<open>index_r = 6\<close>, \<open>length = 1\<close> and \<open>index_w = 3\<close> satisfy the two equations of the
  invariant, and \<open>advance_pos(index_r, -1)\<close> resets \<open>index_r\<close> to 0. No sequence of
  enqueues and pops from the cleared ring reaches such a state.\<close>

lemma pop_needs_index_r_in_range:
  "ring_inv cfg_example ring_bad \<and> 0 < unat (length_rb ring_bad) \<and>
   \<not> ring_inv cfg_example (advance_pos cfg_example Index_r (- 1) ring_bad)"
  by (simp add: ring_inv_def cfg_example_def ring_bad_def advance_pos_def Let_def)

subsection \<open>C strings and strncpy\<close>

lemma length_strncpy_bytes: "length (strncpy_bytes src n) = n"
  by (induction src n rule: strncpy_bytes.induct) simp_all

text \<open>The bytes stored are a prefix of the source string, padded with NULs.\<close>

lemma strncpy_bytes_eq:
  "strncpy_bytes src n = take n (c_str src) @ replicate (n - strlen src) NUL"
  by (induction src n rule: strncpy_bytes.induct) (simp_all add: c_str_def strlen_def)

lemma NUL_notin_c_str: "NUL \<notin> set (c_str bs)"
  unfolding c_str_def by (induction bs) auto

lemma NUL_notin_take_c_str: "NUL \<notin> set (take n (c_str bs))"
  using NUL_notin_c_str [of bs] by (auto dest: in_set_takeD)

lemma c_str_append_NUL: "NUL \<notin> set s \<Longrightarrow> c_str (s @ NUL # t) = s"
  unfolding c_str_def by (induction s) auto

lemma c_str_append: "NUL \<notin> set s \<Longrightarrow> c_str (s @ t) = s @ c_str t"
  unfolding c_str_def by (induction s) auto

lemma c_str_replicate_NUL: "c_str (replicate k NUL @ t) = (if k = 0 then c_str t else [])"
  by (cases k) (simp_all add: c_str_def)

lemma c_str_nth_NUL: "strlen bs < length bs \<Longrightarrow> bs ! strlen bs = NUL"
  unfolding strlen_def c_str_def
  using nth_length_takeWhile [of "\<lambda>c. c \<noteq> NUL" bs] by simp

lemma c_str_Nil_iff: "bs \<noteq> [] \<Longrightarrow> c_str bs = [] \<longleftrightarrow> bs ! 0 = NUL"
  by (cases bs) (simp_all add: c_str_def)

lemma c_str_strncpy:
  assumes "c_str (drop n dst) = []"
  shows "c_str (strncpy dst src n) = take n (c_str src)"
proof -
  have "c_str (strncpy dst src n)
          = take n (c_str src) @ c_str (replicate (n - strlen src) NUL @ drop n dst)"
    unfolding strncpy_def strncpy_bytes_eq append_assoc
    by (rule c_str_append) (rule NUL_notin_take_c_str)
  also have "c_str (replicate (n - strlen src) NUL @ drop n dst) = []"
    using assms by (simp add: c_str_replicate_NUL)
  finally show ?thesis by simp
qed

lemma length_strncpy: "n \<le> length dst \<Longrightarrow> length (strncpy dst src n) = length dst"
  by (simp add: strncpy_def length_strncpy_bytes)

lemma drop_strncpy: "drop n (strncpy dst src n) = drop n dst"
  by (simp add: strncpy_def length_strncpy_bytes)

lemma take_strncpy: "take n (strncpy dst src n) = strncpy_bytes src n"
  by (simp add: strncpy_def length_strncpy_bytes)

text \<open>A second \<open>strncpy\<close> of the same count overwrites all that the first one wrote.\<close>

lemma strncpy_twice: "strncpy (strncpy dst a n) b n = strncpy dst b n"
  by (simp add: strncpy_def length_strncpy_bytes)

lemma drop_last_nth:
  assumes "length bs = Suc n"
  shows "drop n bs = [bs ! n]"
  using assms by (metis Cons_nth_drop_Suc drop_all lessI order_refl)

subsection \<open>enqueue\<close>

lemma c_str_copy_command:
  "c_str (copy_command sz dst cmd) = take (sz - 1) (c_str cmd)"
  unfolding copy_command_def Let_def
  by (rule c_str_append_NUL) (rule NUL_notin_take_c_str)

lemma length_copy_command:
  assumes "0 < sz" and "length dst = sz"
  shows "length (copy_command sz dst cmd) = sz"
proof -
  have "length (take (sz - 1) (c_str cmd)) \<le> sz - 1" by simp
  with assms show ?thesis
    by (simp add: copy_command_def Let_def del: length_take)
qed

text \<open>On a write position inside the array, the steps of \<open>commit_command\<close> on
  \<open>index_w\<close> and \<open>length\<close> are those of \<^verbatim>\<open>advance_pos(index_w, 1)\<close> of the header.\<close>

lemma commit_command_advance_pos:
  assumes B: "0 < BUFSIZE cfg" "BUFSIZE cfg \<le> 255"
    and iw: "unat (index_w r) < BUFSIZE cfg"
  shows "commit_command cfg ok serial_ind r =
           advance_pos cfg Index_w 1
             (r\<lparr>commands := (commands r)[unat (index_w r) :=
                   (commands r ! unat (index_w r))\<lparr>skip_ok := ok, port := serial_ind\<rparr>]\<rparr>)"
proof -
  have p: "unat (if int (BUFSIZE cfg) \<le> uint (index_w r + 1) then 0 else index_w r + 1)
             = (unat (index_w r) + 1) mod BUFSIZE cfg"
    using B(2) iw by (rule unat_wrap_pos)
  have "(of_nat ((unat (index_w r) + 1) mod BUFSIZE cfg) :: uint8_t)
          = (if int (BUFSIZE cfg) \<le> uint (index_w r + 1) then 0 else index_w r + 1)"
    by (subst p [symmetric]) simp
  moreover have "(word_of_int (uint (length_rb r) + 1) :: uint8_t) = length_rb r + 1"
    by simp
  ultimately show ?thesis
    by (simp add: commit_command_def advance_pos_def Let_def del: One_nat_def)
qed

text \<open>
  C2. For a ring of \<open>BUFSIZE\<close> slots (\<open>0 < BUFSIZE \<le> 255\<close>) of \<open>MAX_CMD_SIZE\<close> bytes whose
  write position is inside the array, and every command string \<open>cmd\<close>: when
  \<open>length = BUFSIZE\<close>, \<open>enqueue\<close> returns false and the ring is unchanged. Otherwise it
  returns true; slot \<open>index_w\<close> holds the string \<open>cmd\<close> truncated to
  \<open>MAX_CMD_SIZE - 1\<close> bytes, NUL-terminated inside its \<open>MAX_CMD_SIZE\<close> bytes, with
  \<open>skip_ok\<close> and the port tag recorded; \<open>index_w\<close> is advanced modulo \<open>BUFSIZE\<close>;
  \<open>length\<close> is incremented by one (without wrap-around when it was below \<open>BUFSIZE\<close>);
  \<open>index_r\<close> and the other slots are unchanged; and the new ring is the one
  \<^verbatim>\<open>advance_pos(index_w, 1)\<close> gives after the slot is written.
\<close>

theorem enqueue_spec:
  assumes B: "0 < BUFSIZE cfg" "BUFSIZE cfg \<le> 255"
    and M: "0 < MAX_CMD_SIZE cfg"
    and sz: "ring_sized cfg r"
    and iw: "unat (index_w r) < BUFSIZE cfg"
    and bl: "length (buffer (commands r ! unat (index_w r))) = MAX_CMD_SIZE cfg"
  shows "(unat (length_rb r) = BUFSIZE cfg \<longrightarrow> enqueue cfg cmd ok serial_ind r = (False, r)) \<and>
         (unat (length_rb r) \<noteq> BUFSIZE cfg \<longrightarrow>
            fst (enqueue cfg cmd ok serial_ind r) = True \<and>
            c_str (buffer (commands (snd (enqueue cfg cmd ok serial_ind r)) ! unat (index_w r)))
              = take (MAX_CMD_SIZE cfg - 1) (c_str cmd) \<and>
            length (buffer (commands (snd (enqueue cfg cmd ok serial_ind r)) ! unat (index_w r)))
              = MAX_CMD_SIZE cfg \<and>
            skip_ok (commands (snd (enqueue cfg cmd ok serial_ind r)) ! unat (index_w r)) = ok \<and>
            port (commands (snd (enqueue cfg cmd ok serial_ind r)) ! unat (index_w r)) = serial_ind \<and>
            unat (index_w (snd (enqueue cfg cmd ok serial_ind r)))
              = (unat (index_w r) + 1) mod BUFSIZE cfg \<and>
            length_rb (snd (enqueue cfg cmd ok serial_ind r)) = length_rb r + 1 \<and>
            (unat (length_rb r) < BUFSIZE cfg \<longrightarrow>
               unat (length_rb (snd (enqueue cfg cmd ok serial_ind r))) = unat (length_rb r) + 1) \<and>
            index_r (snd (enqueue cfg cmd ok serial_ind r)) = index_r r \<and>
            length (commands (snd (enqueue cfg cmd ok serial_ind r))) = BUFSIZE cfg \<and>
            (\<forall>j < BUFSIZE cfg. j \<noteq> unat (index_w r) \<longrightarrow>
               commands (snd (enqueue cfg cmd ok serial_ind r)) ! j = commands r ! j) \<and>
            snd (enqueue cfg cmd ok serial_ind r) =
              advance_pos cfg Index_w 1
                (r\<lparr>commands := (commands r)[unat (index_w r) :=
                     (commands r ! unat (index_w r))
                       \<lparr>buffer := copy_command (MAX_CMD_SIZE cfg)
                                   (buffer (commands r ! unat (index_w r))) cmd,
                        skip_ok := ok, port := serial_ind\<rparr>]\<rparr>))"
proof -
  let ?i = "unat (index_w r)"
  let ?c = "commands r ! ?i"
  let ?c' = "?c\<lparr>buffer := copy_command (MAX_CMD_SIZE cfg) (buffer ?c) cmd,
               skip_ok := ok, port := serial_ind\<rparr>"
  let ?r' = "r\<lparr>commands := (commands r)[?i := ?c'],
               index_w := of_nat ((?i + 1) mod BUFSIZE cfg),
               length_rb := length_rb r + 1\<rparr>"
  from sz iw have il: "?i < length (commands r)" by (simp add: ring_sized_def)
  have full: "enqueue cfg cmd ok serial_ind r = (False, r)" if "unat (length_rb r) = BUFSIZE cfg"
    using that by (simp add: enqueue_def)
  have e: "enqueue cfg cmd ok serial_ind r = (True, ?r')" if "unat (length_rb r) \<noteq> BUFSIZE cfg"
    using that il by (simp add: enqueue_def commit_command_def Let_def)
  have slot: "commands ?r' ! ?i = ?c'" using il by simp
  have s1: "c_str (buffer (commands ?r' ! ?i)) = take (MAX_CMD_SIZE cfg - 1) (c_str cmd)"
    unfolding slot by (simp add: c_str_copy_command)
  have s2: "length (buffer (commands ?r' ! ?i)) = MAX_CMD_SIZE cfg"
    unfolding slot using M bl by (simp add: length_copy_command)
  have s3: "skip_ok (commands ?r' ! ?i) = ok \<and> port (commands ?r' ! ?i) = serial_ind"
    unfolding slot by simp
  have w: "unat (index_w ?r') = (?i + 1) mod BUFSIZE cfg"
    using B by (simp add: unat_of_nat_mod del: One_nat_def)
  have l: "unat (length_rb ?r') = unat (length_rb r) + 1" if "unat (length_rb r) < BUFSIZE cfg"
  proof -
    from that B(2) have "unat (length_rb r) < 255" by simp
    then show ?thesis by (simp add: unat_word_ariths)
  qed
  have o: "\<forall>j < BUFSIZE cfg. j \<noteq> ?i \<longrightarrow> commands ?r' ! j = commands r ! j"
    by simp
  have n: "length (commands ?r') = BUFSIZE cfg" using sz by (simp add: ring_sized_def)
  have lr: "length_rb ?r' = length_rb r + 1" "index_r ?r' = index_r r" by simp_all
  let ?r1 = "r\<lparr>commands := (commands r)[?i := ?c\<lparr>buffer :=
                copy_command (MAX_CMD_SIZE cfg) (buffer ?c) cmd\<rparr>]\<rparr>"
  have "?r' = commit_command cfg ok serial_ind ?r1"
    using il by (simp add: commit_command_def Let_def)
  also have "\<dots> = advance_pos cfg Index_w 1
      (?r1\<lparr>commands := (commands ?r1)[unat (index_w ?r1) :=
          (commands ?r1 ! unat (index_w ?r1))\<lparr>skip_ok := ok, port := serial_ind\<rparr>]\<rparr>)"
    using B iw by (intro commit_command_advance_pos) simp_all
  also have "\<dots> = advance_pos cfg Index_w 1 (r\<lparr>commands := (commands r)[?i := ?c']\<rparr>)"
    using il by simp
  finally have adv: "?r' = advance_pos cfg Index_w 1 (r\<lparr>commands := (commands r)[?i := ?c']\<rparr>)" .
  have big: "fst (True, ?r') = True \<and>
        c_str (buffer (commands (snd (True, ?r')) ! ?i)) = take (MAX_CMD_SIZE cfg - 1) (c_str cmd) \<and>
        length (buffer (commands (snd (True, ?r')) ! ?i)) = MAX_CMD_SIZE cfg \<and>
        skip_ok (commands (snd (True, ?r')) ! ?i) = ok \<and>
        port (commands (snd (True, ?r')) ! ?i) = serial_ind \<and>
        unat (index_w (snd (True, ?r'))) = (?i + 1) mod BUFSIZE cfg \<and>
        length_rb (snd (True, ?r')) = length_rb r + 1 \<and>
        (unat (length_rb r) < BUFSIZE cfg \<longrightarrow>
           unat (length_rb (snd (True, ?r'))) = unat (length_rb r) + 1) \<and>
        index_r (snd (True, ?r')) = index_r r \<and>
        length (commands (snd (True, ?r'))) = BUFSIZE cfg \<and>
        (\<forall>j < BUFSIZE cfg. j \<noteq> ?i \<longrightarrow> commands (snd (True, ?r')) ! j = commands r ! j) \<and>
        snd (True, ?r') = advance_pos cfg Index_w 1 (r\<lparr>commands := (commands r)[?i := ?c']\<rparr>)"
    unfolding fst_conv snd_conv using s1 s2 s3 w l o n adv lr by blast
  show ?thesis
  proof (cases "unat (length_rb r) = BUFSIZE cfg")
    case True
    with full show ?thesis by blast
  next
    case False
    note e' = e [OF False]
    from False big show ?thesis unfolding e' by blast
  qed
qed

theorem enqueue_spec_witness:
  "enqueue cfg_example ''G28'' True (- 1) (ring_example\<lparr>length_rb := 4, index_w := 3\<rparr>)
     = (False, ring_example\<lparr>length_rb := 4, index_w := 3\<rparr>) \<and>
   fst (enqueue cfg_example ''G1 X100 Y20'' False 0 ring_example) \<and>
   c_str (buffer (commands (snd (enqueue cfg_example ''G1 X100 Y20'' False 0 ring_example)) ! 1))
     = ''G1 X100'' \<and>
   unat (index_w (snd (enqueue cfg_example ''G1 X100 Y20'' False 0 ring_example))) = 2 \<and>
   unat (length_rb (snd (enqueue cfg_example ''G1 X100 Y20'' False 0 ring_example))) = 3"
proof -
  let ?full = "ring_example\<lparr>length_rb := 4, index_w := 3\<rparr>"
  have c: "0 < BUFSIZE cfg_example" "BUFSIZE cfg_example \<le> 255" "0 < MAX_CMD_SIZE cfg_example"
    by (simp_all add: cfg_example_def)
  have f: "ring_sized cfg_example ?full" "unat (index_w ?full) < BUFSIZE cfg_example"
    "length (buffer (commands ?full ! unat (index_w ?full))) = MAX_CMD_SIZE cfg_example"
    by (simp_all add: cfg_example_def ring_example_def ring_sized_def slot_example_def)
  have r: "ring_sized cfg_example ring_example" "unat (index_w ring_example) < BUFSIZE cfg_example"
    "length (buffer (commands ring_example ! unat (index_w ring_example))) = MAX_CMD_SIZE cfg_example"
    by (simp_all add: cfg_example_def ring_example_def ring_sized_def slot_example_def)
  have t: "take (MAX_CMD_SIZE cfg_example - 1) (c_str ''G1 X100 Y20'') = ''G1 X100''"
    by (simp add: cfg_example_def c_str_def)
  have v: "unat (length_rb ?full) = BUFSIZE cfg_example"
    "unat (length_rb ring_example) \<noteq> BUFSIZE cfg_example"
    "unat (length_rb ring_example) < BUFSIZE cfg_example"
    "unat (index_w ring_example) = 1" "unat (length_rb ring_example) = 2" "BUFSIZE cfg_example = 4"
    by (simp_all add: cfg_example_def ring_example_def)
  from enqueue_spec [OF c f, of "''G28''" True "- 1"] v(1)
  have a: "enqueue cfg_example ''G28'' True (- 1) ?full = (False, ?full)"
    by blast
  from enqueue_spec [OF c r, of "''G1 X100 Y20''" False 0] v(2,3)
  have "fst (enqueue cfg_example ''G1 X100 Y20'' False 0 ring_example) \<and>
    c_str (buffer (commands (snd (enqueue cfg_example ''G1 X100 Y20'' False 0 ring_example)) !
        unat (index_w ring_example)))
      = take (MAX_CMD_SIZE cfg_example - 1) (c_str ''G1 X100 Y20'') \<and>
    unat (index_w (snd (enqueue cfg_example ''G1 X100 Y20'' False 0 ring_example)))
      = (unat (index_w ring_example) + 1) mod BUFSIZE cfg_example \<and>
    unat (length_rb (snd (enqueue cfg_example ''G1 X100 Y20'' False 0 ring_example)))
      = unat (length_rb ring_example) + 1"
    by blast
  with a show ?thesis unfolding t v(4,5,6) by simp
qed

subsection \<open>full\<close>

text \<open>
  C3. For every ring state and every \<open>n\<close> with \<open>1 \<le> n \<le> BUFSIZE\<close>, \<open>full(n)\<close> is true
  if and only if \<open>length > BUFSIZE - n\<close> (a difference of natural numbers, since
  \<open>n \<le> BUFSIZE\<close>); and when \<open>length \<le> BUFSIZE\<close>, \<open>full()\<close> with the default argument 1
  is true exactly when \<open>length = BUFSIZE\<close>.
\<close>

theorem full_iff:
  "(1 \<le> unat n \<and> unat n \<le> BUFSIZE cfg \<longrightarrow>
      (full cfg r n \<longleftrightarrow> unat (length_rb r) > BUFSIZE cfg - unat n)) \<and>
   (unat (length_rb r) \<le> BUFSIZE cfg \<longrightarrow>
      (full cfg r 1 \<longleftrightarrow> unat (length_rb r) = BUFSIZE cfg))"
proof -
  have a: "full cfg r n \<longleftrightarrow> int (unat (length_rb r)) > int (BUFSIZE cfg) - int (unat n)"
    unfolding full_def uint_nat ..
  have "uint (1 :: uint8_t) = 1" by simp
  then have b: "full cfg r 1 \<longleftrightarrow> int (unat (length_rb r)) > int (BUFSIZE cfg) - 1"
    unfolding full_def uint_nat [of "length_rb r"] by (simp only:)
  have c: "1 \<le> N \<Longrightarrow> N \<le> B \<Longrightarrow> int B - int N < int L \<longleftrightarrow> B - N < L" for L N B :: nat
    by arith
  have d: "L \<le> B \<Longrightarrow> int B - 1 < int L \<longleftrightarrow> L = B" for L B :: nat
    by arith
  show ?thesis unfolding a b using c d by blast
qed

theorem full_iff_witness:
  "full cfg_example ring_example 3 \<and> \<not> full cfg_example ring_example 2 \<and>
   \<not> full cfg_example ring_example 1"
  using full_iff [of 3 cfg_example ring_example] full_iff [of 2 cfg_example ring_example]
  by (simp add: cfg_example_def ring_example_def)

subsection \<open>clear\<close>

text \<open>
  C4. \<open>clear()\<close> sets \<open>length\<close>, \<open>index_r\<close> and \<open>index_w\<close> of the ring to 0, so the ring
  is empty afterwards, and changes nothing else: the slots of the ring, every
  \<open>SerialState\<close> entry and both injector slots are as before.
\<close>

theorem clear_frame:
  "length_rb (ring_buffer (GCodeQueue_clear q)) = 0 \<and>
   index_r (ring_buffer (GCodeQueue_clear q)) = 0 \<and>
   index_w (ring_buffer (GCodeQueue_clear q)) = 0 \<and>
   empty_rb (ring_buffer (GCodeQueue_clear q)) \<and>
   commands (ring_buffer (GCodeQueue_clear q)) = commands (ring_buffer q) \<and>
   serial_state (GCodeQueue_clear q) = serial_state q \<and>
   injected_commands_P (GCodeQueue_clear q) = injected_commands_P q \<and>
   injected_commands (GCodeQueue_clear q) = injected_commands q"
  by (simp add: GCodeQueue_clear_def RingBuffer_clear_def empty_rb_def occupied_def)

subsection \<open>The injectors\<close>

text \<open>
  C5. When the scratch buffer has its 64 bytes and byte 63 is NUL, then after
  \<open>inject(gcode)\<close>, for every \<open>gcode\<close>: byte 63 is still NUL and the buffer holds a
  NUL-terminated string of at most 63 bytes, namely the first 63 bytes of the string
  \<open>gcode\<close> (all of it when \<open>strlen(gcode) < 63\<close>); bytes 0 to 62 are that prefix padded
  with NULs, byte 63 is not written, and nothing else changes.
\<close>

theorem inject_truncates:
  assumes len: "length (injected_commands q) = sizeof_injected_commands"
    and nul: "injected_commands q ! 63 = NUL"
  shows "length (injected_commands (inject gcode q)) = sizeof_injected_commands \<and>
         injected_commands (inject gcode q) ! 63 = NUL \<and>
         c_str (injected_commands (inject gcode q)) = take 63 (c_str gcode) \<and>
         strlen (injected_commands (inject gcode q)) \<le> 63 \<and>
         injected_commands (inject gcode q) ! strlen (injected_commands (inject gcode q)) = NUL \<and>
         (strlen gcode < 63 \<longrightarrow> c_str (injected_commands (inject gcode q)) = c_str gcode) \<and>
         take 63 (injected_commands (inject gcode q))
           = take 63 (c_str gcode) @ replicate (63 - strlen gcode) NUL \<and>
         drop 63 (injected_commands (inject gcode q)) = drop 63 (injected_commands q) \<and>
         serial_state (inject gcode q) = serial_state q \<and>
         ring_buffer (inject gcode q) = ring_buffer q \<and>
         injected_commands_P (inject gcode q) = injected_commands_P q"
proof -
  let ?b = "injected_commands (inject gcode q)"
  have b: "?b = strncpy (injected_commands q) gcode 63"
    by (simp add: inject_def sizeof_injected_commands_def)
  from len have len': "length (injected_commands q) = Suc 63"
    by (simp add: sizeof_injected_commands_def)
  then have "drop 63 (injected_commands q) = [injected_commands q ! 63]"
    by (rule drop_last_nth)
  with nul have d: "drop 63 (injected_commands q) = [NUL]" by simp
  have l: "length ?b = Suc 63"
    unfolding b using len' by (simp add: length_strncpy)
  have dr: "drop 63 ?b = drop 63 (injected_commands q)"
    unfolding b by (rule drop_strncpy)
  from l have "drop 63 ?b = [?b ! 63]" by (rule drop_last_nth)
  with dr d have n63: "?b ! 63 = NUL" by simp
  have c: "c_str ?b = take 63 (c_str gcode)"
    unfolding b by (rule c_str_strncpy) (simp add: d c_str_def)
  then have s: "strlen ?b \<le> 63" by (simp add: strlen_def)
  with l have "strlen ?b < length ?b" by simp
  then have t: "?b ! strlen ?b = NUL" by (rule c_str_nth_NUL)
  have tk: "take 63 ?b = take 63 (c_str gcode) @ replicate (63 - strlen gcode) NUL"
    unfolding b take_strncpy by (rule strncpy_bytes_eq)
  have fr: "serial_state (inject gcode q) = serial_state q \<and>
         ring_buffer (inject gcode q) = ring_buffer q \<and>
         injected_commands_P (inject gcode q) = injected_commands_P q"
    by (simp add: inject_def)
  from c have f: "strlen gcode < 63 \<longrightarrow> c_str ?b = c_str gcode" by (simp add: strlen_def)
  from l have l': "length ?b = sizeof_injected_commands"
    by (simp add: sizeof_injected_commands_def)
  from l' n63 c s t f tk dr fr show ?thesis by blast
qed

theorem inject_truncates_witness:
  "c_str (injected_commands (inject gcode_long queue_example)) = replicate 63 (CHR ''x'') \<and>
   injected_commands (inject gcode_long queue_example) ! 63 = NUL \<and>
   c_str (injected_commands (inject ''G28'' queue_example)) = ''G28''"
proof -
  have h1: "length (injected_commands queue_example) = sizeof_injected_commands"
    by (simp add: queue_example_def sizeof_injected_commands_def)
  have h2: "injected_commands queue_example ! 63 = NUL"
    by (simp add: queue_example_def nth_append)
  have a: "take 63 (c_str gcode_long) = replicate 63 (CHR ''x'')"
    unfolding gcode_long_def c_str_def by code_simp
  have b: "take 63 (c_str ''G28'') = ''G28''"
    by (simp add: c_str_def)
  from inject_truncates [OF h1 h2, of gcode_long] inject_truncates [OF h1 h2, of "''G28''"]
  show ?thesis unfolding a b by blast
qed

text \<open>
  C6. Setting an injector replaces what was pending. \<open>inject_P(a)\<close> followed by
  \<open>inject_P(b)\<close> leaves \<open>injected_commands_P = b\<close> and is the same as \<open>inject_P(b)\<close>
  alone. \<open>inject(t)\<close> followed by \<open>inject(s)\<close> is the same as \<open>inject(s)\<close> alone, for
  all \<open>s\<close> and \<open>t\<close>, since \<open>strncpy\<close> pads a shorter string with NULs; and when the
  buffer has its 64 bytes and byte 63 is NUL, the string then held is the first 63
  bytes of \<open>s\<close>, with nothing of \<open>t\<close> after it.
\<close>

theorem inject_replaces:
  assumes len: "length (injected_commands q) = sizeof_injected_commands"
    and nul: "injected_commands q ! 63 = NUL"
  shows "injected_commands_P (inject_P b (inject_P a q)) = b \<and>
         inject_P b (inject_P a q) = inject_P b q \<and>
         inject s (inject t q) = inject s q \<and>
         c_str (injected_commands (inject s (inject t q))) = take 63 (c_str s)"
proof -
  have i: "inject s (inject t q) = inject s q"
    by (simp add: inject_def strncpy_twice)
  have d: "drop 63 (injected_commands q) = [NUL]"
    using len nul drop_last_nth [of "injected_commands q" 63]
    by (simp add: sizeof_injected_commands_def)
  have "c_str (injected_commands (inject s q)) = take 63 (c_str s)"
    unfolding inject_def sizeof_injected_commands_def
    by (simp add: c_str_strncpy d c_str_Nil_iff)
  with i show ?thesis by (simp add: inject_P_def)
qed

theorem inject_replaces_witness:
  "injected_commands_P (inject_P (Some ''M84'') (inject_P (Some ''G28'') queue_example)) = Some ''M84'' \<and>
   c_str (injected_commands (inject ''G1'' (inject ''M117 Hello'' queue_example))) = ''G1''"
proof -
  have h1: "length (injected_commands queue_example) = sizeof_injected_commands"
    by (simp add: queue_example_def sizeof_injected_commands_def)
  have h2: "injected_commands queue_example ! 63 = NUL"
    by (simp add: queue_example_def nth_append)
  have b: "take 63 (c_str ''G1'') = ''G1''"
    by (simp add: c_str_def)
  from inject_replaces [OF h1 h2, of "Some ''M84''" "Some ''G28''" "''G1''" "''M117 Hello''"]
  show ?thesis unfolding b by blast
qed

subsection \<open>set_current_line_number\<close>

text \<open>When \<open>command_port()\<close> is the index \<open>p\<close> of one of the \<open>NUM_SERIAL\<close> serial
  ports, \<open>set_current_line_number(n)\<close> sets \<open>last_N\<close> of port \<open>p\<close> to \<open>n\<close> and leaves
  the other fields of that \<open>SerialState\<close>, every other \<open>SerialState\<close>, the ring and
  both injectors unchanged.\<close>

lemma set_current_line_number_frame:
  assumes sz: "length (serial_state q) = NUM_SERIAL cfg"
    and cp: "command_port cfg (ring_buffer q) = Some p"
    and p: "0 \<le> p" "nat p < NUM_SERIAL cfg"
  shows "\<exists>q'. set_current_line_number cfg n q = Some q' \<and>
           length (serial_state q') = NUM_SERIAL cfg \<and>
           last_N (serial_state q' ! nat p) = n \<and>
           count (serial_state q' ! nat p) = count (serial_state q ! nat p) \<and>
           line_buffer (serial_state q' ! nat p) = line_buffer (serial_state q ! nat p) \<and>
           input_state (serial_state q' ! nat p) = input_state (serial_state q ! nat p) \<and>
           (\<forall>i < NUM_SERIAL cfg. i \<noteq> nat p \<longrightarrow> serial_state q' ! i = serial_state q ! i) \<and>
           ring_buffer q' = ring_buffer q \<and>
           injected_commands_P q' = injected_commands_P q \<and>
           injected_commands q' = injected_commands q"
  using assms by (simp add: set_current_line_number_def)

lemma set_current_line_number_frame_example:
  "\<exists>q'. set_current_line_number cfg_example 110 queue_example = Some q' \<and>
     map last_N (serial_state q') = [7, 110]"
  using set_current_line_number_frame [of queue_example cfg_example 1 110]
  by (simp add: queue_example_def cfg_example_def ring_example_def command_port_def
      commands_at_def slot_example_def set_current_line_number_def)

text \<open>The state \<open>ring_injected\<close> is the one that \<open>clear()\<close> followed by
  \<^verbatim>\<open>enqueue("M110 N5")\<close> with the default arguments gives.\<close>

lemma ring_injected_enqueued:
  "enqueue cfg_example ''M110 N5'' True (- 1) (RingBuffer_clear ring_example)
     = (True, ring_injected)"
  by (simp add: enqueue_def commit_command_def copy_command_def c_str_def Let_def
      RingBuffer_clear_def cfg_example_def ring_example_def ring_injected_def slot_example_def)

text \<open>
  C7. \<open>set_current_line_number(n)\<close> is to set \<open>last_N\<close> of the serial port recorded in
  the command at the read position, \<open>command_port()\<close>, and to leave every other
  \<open>last_N\<close> and every other field of every \<open>SerialState\<close> unchanged. The code fails to
  do so for a command that came from no serial port: in the well-formed state
  \<open>queue_injected\<close> (two serial ports, four slots, the invariant of the ring holds,
  one command queued) \<open>command_port()\<close> is \<open>-1\<close>, the header's default \<open>serial_ind\<close>, so
  the assignment goes to \<open>serial_state[-1]\<close>, outside the array of the serial states:
  the call has no defined result, and no serial port gets the line number.
\<close>

theorem set_current_line_number_no_port:
  "ring_sized cfg_example (ring_buffer queue_injected) \<and>
   ring_inv cfg_example (ring_buffer queue_injected) \<and>
   length (serial_state queue_injected) = NUM_SERIAL cfg_example \<and>
   length (injected_commands queue_injected) = sizeof_injected_commands \<and>
   command_port cfg_example (ring_buffer queue_injected) = Some (- 1) \<and>
   set_current_line_number cfg_example 110 queue_injected = None"
  by (simp add: set_current_line_number_def command_port_def commands_at_def cfg_example_def
      queue_injected_def queue_example_def ring_injected_def slot_example_def
      ring_sized_def ring_inv_def sizeof_injected_commands_def)

subsection \<open>First in, first out\<close>

text \<open>A pop removes the first of the queued commands.\<close>

lemma queued_pop:
  assumes B: "0 < BUFSIZE cfg" "BUFSIZE cfg \<le> 255"
    and ir: "unat (index_r r) < BUFSIZE cfg"
    and len: "0 < unat (length_rb r)"
  shows "queued cfg (advance_pos cfg Index_r (- 1) r) = tl (queued cfg r)"
proof -
  let ?B = "BUFSIZE cfg"
  let ?f = "\<lambda>k. commands r ! ((unat (index_r r) + k) mod ?B)"
  have l: "unat (word_of_int (uint (length_rb r) + (- 1)) :: uint8_t) = unat (length_rb r) - 1"
    using len by (rule unat_length_dec)
  have p: "unat (if int ?B \<le> uint (index_r r + 1) then 0 else index_r r + 1)
             = (unat (index_r r) + 1) mod ?B"
    using B(2) ir by (rule unat_wrap_pos)
  have "queued cfg (advance_pos cfg Index_r (- 1) r)
          = map (\<lambda>k. commands r ! (((unat (index_r r) + 1) mod ?B + k) mod ?B))
              [0..<unat (length_rb r) - 1]"
    unfolding queued_def advance_pos_r using l p by (simp del: One_nat_def)
  also have "\<dots> = map (\<lambda>k. ?f (Suc k)) [0..<unat (length_rb r) - 1]"
    by (simp add: mod_add_left_eq)
  also have "\<dots> = map ?f (map Suc [0..<unat (length_rb r) - 1])"
    by (simp add: comp_def)
  also have "map Suc [0..<unat (length_rb r) - 1] = [Suc 0..<unat (length_rb r)]"
    using len by (simp add: map_Suc_upt)
  also have "map ?f [Suc 0..<unat (length_rb r)] = tl (map ?f [0..<unat (length_rb r)])"
    using len by (simp add: upt_conv_Cons)
  finally show ?thesis by (simp add: queued_def)
qed

lemma mod_add_inj:
  assumes "0 < (B :: nat)" and "k < n" and "n < B"
  shows "(a + k) mod B \<noteq> (a + n) mod B"
proof
  assume "(a + k) mod B = (a + n) mod B"
  then have "B dvd (a + n) - (a + k)"
    using assms(2) by (metis add_le_cancel_left less_imp_le_nat mod_eq_dvd_iff_nat)
  then have "B dvd n - k" by simp
  moreover from assms have "0 < n - k" "n - k < B" by simp_all
  ultimately show False by (meson nat_dvd_not_less)
qed

text \<open>Writing slot \<open>index_w\<close> and advancing the write position appends to the queued
  commands: the ring is first in, first out.\<close>

lemma queued_enqueue:
  assumes B: "0 < BUFSIZE cfg" "BUFSIZE cfg \<le> 255"
    and sz: "ring_sized cfg r"
    and inv: "ring_inv cfg r"
    and len: "unat (length_rb r) < BUFSIZE cfg"
  shows "queued cfg (advance_pos cfg Index_w 1 (r\<lparr>commands := (commands r)[unat (index_w r) := c]\<rparr>))
           = queued cfg r @ [c]"
proof -
  let ?B = "BUFSIZE cfg"
  let ?n = "unat (length_rb r)"
  let ?cs = "(commands r)[unat (index_w r) := c]"
  have w: "unat (index_w r) < ?B" using B(1) inv by (rule ring_inv_index_w)
  from inv have iw: "unat (index_w r) = (unat (index_r r) + ?n) mod ?B"
    by (simp add: ring_inv_def)
  have l: "unat (word_of_int (uint (length_rb r) + 1) :: uint8_t) = ?n + 1"
    using len B by (intro unat_length_inc) simp
  have "queued cfg (advance_pos cfg Index_w 1 (r\<lparr>commands := ?cs\<rparr>))
          = map (\<lambda>k. ?cs ! ((unat (index_r r) + k) mod ?B)) [0..<?n + 1]"
    unfolding queued_def advance_pos_w using l by (simp del: One_nat_def)
  also have "\<dots> = map (\<lambda>k. ?cs ! ((unat (index_r r) + k) mod ?B)) [0..<?n]
                   @ [?cs ! ((unat (index_r r) + ?n) mod ?B)]"
    by simp
  also have "?cs ! ((unat (index_r r) + ?n) mod ?B) = c"
    using w sz by (simp add: iw [symmetric] ring_sized_def)
  also have "map (\<lambda>k. ?cs ! ((unat (index_r r) + k) mod ?B)) [0..<?n]
               = map (\<lambda>k. commands r ! ((unat (index_r r) + k) mod ?B)) [0..<?n]"
  proof (rule map_cong [OF refl])
    fix k assume "k \<in> set [0..<?n]"
    then have "k < ?n" by simp
    with B(1) len have "(unat (index_r r) + k) mod ?B \<noteq> (unat (index_r r) + ?n) mod ?B"
      by (intro mod_add_inj)
    then show "?cs ! ((unat (index_r r) + k) mod ?B) = commands r ! ((unat (index_r r) + k) mod ?B)"
      by (simp add: iw)
  qed
  finally show ?thesis by (simp add: queued_def)
qed

subsection \<open>peek_next_command\<close>

text \<open>
  C8. For a ring of \<open>BUFSIZE\<close> slots whose read position is inside the array,
  \<open>peek_next_command()\<close> returns the \<open>CommandLine\<close> at index \<open>index_r\<close> and leaves the
  ring as it is; \<open>peek_next_command_string()\<close> returns the buffer of that command;
  and when \<open>length > 0\<close> that command is the first of the queued commands, the oldest.
\<close>

theorem peek_next_command_oldest:
  assumes sz: "ring_sized cfg r" and ir: "unat (index_r r) < BUFSIZE cfg"
  shows "peek_next_command r = (Some (commands r ! unat (index_r r)), r) \<and>
         peek_next_command_string r = (Some (buffer (commands r ! unat (index_r r))), r) \<and>
         (0 < unat (length_rb r) \<longrightarrow> hd (queued cfg r) = commands r ! unat (index_r r))"
proof -
  from sz ir have a: "commands_at r (index_r r) = Some (commands r ! unat (index_r r))"
    by (simp add: commands_at_def ring_sized_def)
  have "hd (queued cfg r) = commands r ! unat (index_r r)" if "0 < unat (length_rb r)"
  proof -
    from that have "[0..<unat (length_rb r)] = 0 # [1..<unat (length_rb r)]"
      by (simp add: upt_conv_Cons)
    with ir show ?thesis by (simp add: queued_def)
  qed
  with a show ?thesis
    by (simp add: peek_next_command_def peek_next_command_string_def)
qed

theorem peek_next_command_oldest_witness:
  "fst (peek_next_command ring_example) = Some (slot_example ''G28'' False 1) \<and>
   snd (peek_next_command ring_example) = ring_example \<and>
   map_option c_str (fst (peek_next_command_string ring_example)) = Some ''G28'' \<and>
   hd (queued cfg_example ring_example) = slot_example ''G28'' False 1"
  using peek_next_command_oldest [of cfg_example ring_example]
  by (simp add: ring_sized_def cfg_example_def ring_example_def slot_example_def c_str_def)

subsection \<open>has_commands_queued\<close>

text \<open>
  C9. \<open>has_commands_queued()\<close> is true if and only if the ring is occupied
  (\<open>length \<noteq> 0\<close>) or \<open>injected_commands_P\<close> is not null or \<open>injected_commands[0]\<close> is
  not NUL; it is false exactly when the ring is empty, the pointer is null and the
  scratch buffer holds the empty string.
\<close>

theorem has_commands_queued_iff:
  assumes "length (injected_commands q) = sizeof_injected_commands"
  shows "(has_commands_queued q \<longleftrightarrow>
            occupied (ring_buffer q) \<or> injected_commands_P q \<noteq> None \<or>
            injected_commands q ! 0 \<noteq> NUL) \<and>
         (\<not> has_commands_queued q \<longleftrightarrow>
            empty_rb (ring_buffer q) \<and> injected_commands_P q = None \<and>
            c_str (injected_commands q) = [])"
proof -
  from assms have "injected_commands q \<noteq> []"
    by (auto simp: sizeof_injected_commands_def)
  then have "c_str (injected_commands q) = [] \<longleftrightarrow> injected_commands q ! 0 = NUL"
    by (rule c_str_Nil_iff)
  then show ?thesis
    by (auto simp: has_commands_queued_def occupied_def empty_rb_def)
qed

theorem has_commands_queued_iff_witness:
  "has_commands_queued queue_example \<and>
   \<not> has_commands_queued
       (queue_example\<lparr>ring_buffer := RingBuffer_clear ring_example,
          injected_commands_P := None, injected_commands := replicate 64 NUL\<rparr>)"
  using has_commands_queued_iff [of queue_example]
    has_commands_queued_iff [of "queue_example\<lparr>ring_buffer := RingBuffer_clear ring_example,
          injected_commands_P := None, injected_commands := replicate 64 NUL\<rparr>"]
  by (simp add: queue_example_def ring_example_def sizeof_injected_commands_def
      RingBuffer_clear_def occupied_def empty_rb_def c_str_def)

text \<open>
  C10. \<open>clear()\<close> does not cancel pending injected commands: when
  \<open>injected_commands_P\<close> is not null or \<open>injected_commands[0]\<close> is not NUL,
  \<open>has_commands_queued()\<close> is still true right after \<open>clear()\<close>, although the ring is
  empty.
\<close>

theorem clear_keeps_injected:
  assumes "injected_commands_P q \<noteq> None \<or> injected_commands q ! 0 \<noteq> NUL"
  shows "has_commands_queued (GCodeQueue_clear q) \<and> empty_rb (ring_buffer (GCodeQueue_clear q))"
  using assms
  by (auto simp: has_commands_queued_def GCodeQueue_clear_def RingBuffer_clear_def
      empty_rb_def occupied_def)

theorem clear_keeps_injected_witness:
  "has_commands_queued (GCodeQueue_clear queue_example) \<and>
   has_commands_queued (GCodeQueue_clear (queue_example\<lparr>injected_commands_P := None\<rparr>))"
  using clear_keeps_injected [of queue_example]
    clear_keeps_injected [of "queue_example\<lparr>injected_commands_P := None\<rparr>"]
  by (simp add: queue_example_def)

end
